theory Spec2Isabelle
  imports Main "HOL-Library.Sublist" "HOL-Library.Multiset" "HOL-Library.Word"
    "HOL-Library.Char_ord" "HOL-Library.List_Lexorder"
begin

chapter \<open>gitingest-ts: pattern matching, query building, tree walking and rendering\<close>

text \<open>
  A JavaScript string is modelled as a \<^typ>\<open>string\<close>, one \<^typ>\<open>char\<close> per code unit; the
  model's alphabet is the code units below 256. Of the four line terminators of ECMAScript
  (LF, CR, U+2028, U+2029) the first two lie in this alphabet.
\<close>

section \<open>utils.ts: fnmatch\<close>

definition backslash :: char where
  "backslash = CHR 0x5C"

definition LF :: char where
  "LF = CHR 0x0A"

definition CR :: char where
  "CR = CHR 0x0D"

text \<open>The character class \<^verbatim>\<open>[.+^${}()|[\]\\]\<close> of the first \<^verbatim>\<open>replace\<close>.\<close>

definition regex_special :: "char \<Rightarrow> bool" where
  "regex_special c = (c \<in> set ''.+^${}()|[]'' \<or> c = backslash)"

text \<open>\<^verbatim>\<open>.replace(/[.+^${}()|[\]\\]/g, '\\$&')\<close>: every special character gets a backslash.\<close>

definition escape_special :: "string \<Rightarrow> string" where
  "escape_special p = concat (map (\<lambda>c. if regex_special c then [backslash, c] else [c]) p)"

text \<open>\<^verbatim>\<open>.replace(/\*/g, '.*')\<close>\<close>

definition replace_star :: "string \<Rightarrow> string" where
  "replace_star p = concat (map (\<lambda>c. if c = CHR ''*'' then ''.*'' else [c]) p)"

text \<open>\<^verbatim>\<open>.replace(/\?/g, '.')\<close>\<close>

definition replace_question :: "string \<Rightarrow> string" where
  "replace_question p = map (\<lambda>c. if c = CHR ''?'' then CHR ''.'' else c) p"

text \<open>
  The regular expressions \<^verbatim>\<open>new RegExp\<close> is given here are sequences of terms: the two
  assertions, an atom, or an atom under \<^verbatim>\<open>*\<close>. An atom is a pattern character (written
  plainly or as an identity escape) or the dot.
\<close>

datatype atom = PatternChar char | Dot

datatype rterm = AssertStart | AssertEnd | One atom | Many atom

definition is_line_terminator :: "char \<Rightarrow> bool" where
  "is_line_terminator c = (c = LF \<or> c = CR)"

text \<open>Without the \<^verbatim>\<open>s\<close> flag the dot matches any code unit except a line terminator.\<close>

fun atom_matches :: "atom \<Rightarrow> char \<Rightarrow> bool" where
  "atom_matches (PatternChar a) c = (a = c)"
| "atom_matches Dot c = (\<not> is_line_terminator c)"

text \<open>
  The parser of the pattern text. \<open>None\<close> is the \<^verbatim>\<open>SyntaxError\<close> of the constructor, and
  also every construct outside the fragment above (groups, classes, alternatives, the other
  quantifiers, escapes of non-syntax characters), which the three replacements never emit.
\<close>

definition syntax_char :: "char \<Rightarrow> bool" where
  "syntax_char c = (c \<in> set ''^$.*+?()[]{}|'' \<or> c = backslash)"

fun quantified :: "atom \<Rightarrow> string \<Rightarrow> rterm \<times> string" where
  "quantified a [] = (One a, [])"
| "quantified a (c # rest) = (if c = CHR ''*'' then (Many a, rest) else (One a, c # rest))"

lemma quantified_length: "length (snd (quantified a s)) \<le> length s"
  by (cases s) auto

function parse_regex :: "string \<Rightarrow> rterm list option" where
  "parse_regex [] = Some []"
| "parse_regex (c # rest) =
     (if c = CHR ''^'' then map_option ((#) AssertStart) (parse_regex rest)
      else if c = CHR ''$'' then map_option ((#) AssertEnd) (parse_regex rest)
      else if c = backslash then
        (case rest of
           [] \<Rightarrow> None
         | e # rest' \<Rightarrow>
             if syntax_char e
             then map_option ((#) (fst (quantified (PatternChar e) rest')))
                    (parse_regex (snd (quantified (PatternChar e) rest')))
             else None)
      else if c = CHR ''.'' then
        map_option ((#) (fst (quantified Dot rest))) (parse_regex (snd (quantified Dot rest)))
      else if syntax_char c then None
      else map_option ((#) (fst (quantified (PatternChar c) rest)))
             (parse_regex (snd (quantified (PatternChar c) rest))))"
  by pat_completeness auto
termination
proof (relation "measure length")
  show "wf (measure length)" by simp
qed (auto simp: less_Suc_eq_le intro: order_trans [OF quantified_length])

text \<open>
  The backtracking matcher: the terms still to match, whether the position is the start of
  the input, and the input from the position on. An exhausted pattern is a match.
\<close>

fun rmatch :: "rterm list \<Rightarrow> bool \<Rightarrow> string \<Rightarrow> bool" where
  "rmatch [] at_start s = True"
| "rmatch (AssertStart # ts) at_start s = (at_start \<and> rmatch ts at_start s)"
| "rmatch (AssertEnd # ts) at_start s = (s = [] \<and> rmatch ts at_start s)"
| "rmatch (One a # ts) at_start [] = False"
| "rmatch (One a # ts) at_start (c # s) = (atom_matches a c \<and> rmatch ts False s)"
| "rmatch (Many a # ts) at_start [] = rmatch ts at_start []"
| "rmatch (Many a # ts) at_start (c # s) =
     ((atom_matches a c \<and> rmatch (Many a # ts) False s) \<or> rmatch ts at_start (c # s))"

text \<open>\<^verbatim>\<open>regex.test(name)\<close>: a match attempt at every index, from 0 on.\<close>

fun regex_search :: "rterm list \<Rightarrow> bool \<Rightarrow> string \<Rightarrow> bool" where
  "regex_search ts at_start [] = rmatch ts at_start []"
| "regex_search ts at_start (c # s) = (rmatch ts at_start (c # s) \<or> regex_search ts False s)"

definition regex_test :: "rterm list \<Rightarrow> string \<Rightarrow> bool" where
  "regex_test ts name = regex_search ts True name"

definition fnmatch :: "string \<Rightarrow> string \<Rightarrow> bool option" where
  "fnmatch name pattern =
     (let regexPattern = replace_question (replace_star (escape_special pattern))
      in case parse_regex (''^'' @ regexPattern @ ''$'') of
           None \<Rightarrow> None
         | Some regex \<Rightarrow> Some (regex_test regex name))"

text \<open>
  The matcher of the specification, from its words: \<^verbatim>\<open>*\<close> is any run of characters,
  \<^verbatim>\<open>?\<close> is exactly one character, every other character is itself, and the whole candidate
  has to be used up.
\<close>

fun glob_spec :: "string \<Rightarrow> string \<Rightarrow> bool" where
  "glob_spec [] s = (s = [])"
| "glob_spec (p # ps) [] = (p = CHR ''*'' \<and> glob_spec ps [])"
| "glob_spec (p # ps) (c # s) =
     (if p = CHR ''*'' then glob_spec (p # ps) s \<or> glob_spec ps (c # s)
      else if p = CHR ''?'' then glob_spec ps s
      else p = c \<and> glob_spec ps s)"

text \<open>The same matcher with the wildcards kept from line terminators.\<close>

fun glob_line :: "string \<Rightarrow> string \<Rightarrow> bool" where
  "glob_line [] s = (s = [])"
| "glob_line (p # ps) [] = (p = CHR ''*'' \<and> glob_line ps [])"
| "glob_line (p # ps) (c # s) =
     (if p = CHR ''*'' then (\<not> is_line_terminator c \<and> glob_line (p # ps) s) \<or> glob_line ps (c # s)
      else if p = CHR ''?'' then \<not> is_line_terminator c \<and> glob_line ps s
      else p = c \<and> glob_line ps s)"

section \<open>exceptions.ts and confg.ts\<close>

text \<open>
  The exception classes that the modelled code throws. \<open>Error\<close> is the plain
  \<^verbatim>\<open>Error\<close> of JavaScript, with its message; a failing file-system call rejects with one.
\<close>

datatype error =
    Error string
  | InvalidPatternError string
  | MaxFilesReachedError nat
  | MaxFileSizeReachedError nat
  | AlreadyVisitedError string
  | InvalidNotebookError string

definition MAX_FILE_SIZE :: nat where
  "MAX_FILE_SIZE = 10 * 1024 * 1024"

definition MAX_DIRECTORY_DEPTH :: nat where
  "MAX_DIRECTORY_DEPTH = 20"

definition MAX_FILES :: nat where
  "MAX_FILES = 10000"

definition MAX_TOTAL_SIZE_BYTES :: nat where
  "MAX_TOTAL_SIZE_BYTES = 500 * 1024 * 1024"

section \<open>query\_parser.ts\<close>

text \<open>
  \<^verbatim>\<open>ParsedQuery\<close>, with the fields \<^verbatim>\<open>parseQuery\<close> fills in. A \<^verbatim>\<open>Set<string>\<close> is a list
  without repetitions in insertion order, which is the order JavaScript iterates it in.
\<close>

record ParsedQuery =
  repository :: string
  ignorePatterns :: "string list"
  includePatterns :: "string list"
  maxFiles :: nat
  maxTotalSizeBytes :: nat
  maxDirectoryDepth :: nat

definition set_add :: "string \<Rightarrow> string list \<Rightarrow> string list" where
  "set_add x xs = (if x \<in> set xs then xs else xs @ [x])"

definition new_Set :: "string list \<Rightarrow> string list" where
  "new_Set xs = fold set_add xs []"

text \<open>The class \<^verbatim>\<open>[a-zA-Z0-9\-_./+*]\<close>.\<close>

definition pattern_char :: "char \<Rightarrow> bool" where
  "pattern_char c =
     ((CHR ''a'' \<le> c \<and> c \<le> CHR ''z'') \<or> (CHR ''A'' \<le> c \<and> c \<le> CHR ''Z'') \<or>
      (CHR ''0'' \<le> c \<and> c \<le> CHR ''9'') \<or> c \<in> set ''-_./+*'')"

text \<open>
  \<^verbatim>\<open>/^[a-zA-Z0-9\-_./+*]+$/.test(pattern)\<close>: one or more characters of the class, from the
  start of the pattern to its end.
\<close>

definition validPattern_test :: "string \<Rightarrow> bool" where
  "validPattern_test pattern = (pattern \<noteq> [] \<and> list_all pattern_char pattern)"

definition validatePattern :: "string \<Rightarrow> error + unit" where
  "validatePattern pattern =
     (if \<not> validPattern_test pattern then Inl (InvalidPatternError pattern) else Inr ())"

text \<open>The two \<^verbatim>\<open>for\<close> loops of \<^verbatim>\<open>parseQuery\<close>: validate a pattern, then add it to the set.\<close>

fun add_patterns :: "string list \<Rightarrow> string list \<Rightarrow> error + string list" where
  "add_patterns [] final = Inr final"
| "add_patterns (pattern # patterns) final =
     (case validatePattern pattern of
        Inl e \<Rightarrow> Inl e
      | Inr _ \<Rightarrow> add_patterns patterns (set_add pattern final))"

text \<open>
  \<^verbatim>\<open>DEFAULT_IGNORE_PATTERNS\<close> comes from a module that is not part of the sources at hand; it
  is the first argument. An optional argument left out is \<open>None\<close>.
\<close>

definition parseQuery ::
  "string list \<Rightarrow> string \<Rightarrow> string list option \<Rightarrow> string list option \<Rightarrow> error + ParsedQuery"
where
  "parseQuery DEFAULT_IGNORE_PATTERNS repo ignore include =
     (if repo = [] then Inl (Error ''Repository path cannot be empty'')
      else
        case (case ignore of
                None \<Rightarrow> Inr (new_Set DEFAULT_IGNORE_PATTERNS)
              | Some ps \<Rightarrow> add_patterns ps (new_Set DEFAULT_IGNORE_PATTERNS)) of
          Inl e \<Rightarrow> Inl e
        | Inr finalIgnorePatterns \<Rightarrow>
            (case (case include of None \<Rightarrow> Inr [] | Some ps \<Rightarrow> add_patterns ps []) of
               Inl e \<Rightarrow> Inl e
             | Inr finalIncludePatterns \<Rightarrow>
                 Inr \<lparr>repository = repo,
                      ignorePatterns = finalIgnorePatterns,
                      includePatterns = finalIncludePatterns,
                      maxFiles = MAX_FILES,
                      maxTotalSizeBytes = MAX_TOTAL_SIZE_BYTES,
                      maxDirectoryDepth = MAX_DIRECTORY_DEPTH\<rparr>))"

section \<open>query\_ingestion.ts: the tree and its order\<close>

text \<open>
  \<^verbatim>\<open>FileNode\<close>: name, path, size, the directory flag, the optional children and the optional
  content. A field left \<^verbatim>\<open>undefined\<close> is \<open>None\<close>.
\<close>

datatype FileNode =
  FileNode (name: string) (path: string) (size_bytes: nat) (isDirectory: bool)
    (children: "FileNode list option") (content: "string option")

definition set_children :: "FileNode list option \<Rightarrow> FileNode \<Rightarrow> FileNode" where
  "set_children cs n = FileNode (name n) (path n) (size_bytes n) (isDirectory n) cs (content n)"

definition set_content :: "string option \<Rightarrow> FileNode \<Rightarrow> FileNode" where
  "set_content c n = FileNode (name n) (path n) (size_bytes n) (isDirectory n) (children n) c"

text \<open>\<^verbatim>\<open>parentNode.children = parentNode.children || []; parentNode.children.push(child)\<close>\<close>

definition push_child :: "FileNode \<Rightarrow> FileNode \<Rightarrow> FileNode" where
  "push_child parentNode child =
     set_children (Some ((case children parentNode of None \<Rightarrow> [] | Some cs \<Rightarrow> cs) @ [child]))
       parentNode"

text \<open>\<^verbatim>\<open>node.children?.push(childNode)\<close>: nothing happens without a children array.\<close>

definition push_child_opt :: "FileNode \<Rightarrow> FileNode \<Rightarrow> FileNode" where
  "push_child_opt node child =
     (case children node of
        None \<Rightarrow> node
      | Some cs \<Rightarrow> set_children (Some (cs @ [child])) node)"

text \<open>
  \<^verbatim>\<open>toLowerCase\<close> on the model's alphabet: the letters A to Z and the capital letters of
  the Latin-1 block (U+00C0 to U+00DE without the multiplication sign) move up by 32.
\<close>

definition lower_char :: "char \<Rightarrow> char" where
  "lower_char c =
     (if (CHR ''A'' \<le> c \<and> c \<le> CHR ''Z'') \<or> (CHR 0xC0 \<le> c \<and> c \<le> CHR 0xDE \<and> c \<noteq> CHR 0xD7)
      then char_of (of_char c + (32 :: nat)) else c)"

definition toLowerCase :: "string \<Rightarrow> string" where
  "toLowerCase s = map lower_char s"

definition startsWith :: "string \<Rightarrow> string \<Rightarrow> bool" where
  "startsWith s p = prefix p s"

definition endsWith :: "string \<Rightarrow> string \<Rightarrow> bool" where
  "endsWith s p = suffix p s"

text \<open>
  The comparator handed to \<^verbatim>\<open>sort\<close>. \<^verbatim>\<open>localeCompare\<close> is the collation of the host, an
  argument here.
\<close>

definition compareChildren :: "(string \<Rightarrow> string \<Rightarrow> int) \<Rightarrow> FileNode \<Rightarrow> FileNode \<Rightarrow> int" where
  "compareChildren localeCompare a b =
     (if toLowerCase (name a) = ''readme.md'' then - 1
      else if toLowerCase (name b) = ''readme.md'' then 1
      else
        let aIsHidden = startsWith (name a) ''.''; bIsHidden = startsWith (name b) ''.''
        in if isDirectory a \<noteq> isDirectory b then (if isDirectory a then 1 else - 1)
           else if aIsHidden \<noteq> bIsHidden then (if aIsHidden then 1 else - 1)
           else localeCompare (name a) (name b))"

text \<open>
  \<^verbatim>\<open>Array.prototype.sort\<close> is a stable sort, and for a comparator that is consistent on the
  elements every stable sorting algorithm returns the same array. It is modelled by stable
  insertion from the left: an element goes in front of the first element it compares below.
\<close>

fun insert_by :: "('a \<Rightarrow> 'a \<Rightarrow> int) \<Rightarrow> 'a \<Rightarrow> 'a list \<Rightarrow> 'a list" where
  "insert_by cmp x [] = [x]"
| "insert_by cmp x (y # ys) = (if cmp x y < 0 then x # y # ys else y # insert_by cmp x ys)"

definition array_sort :: "('a \<Rightarrow> 'a \<Rightarrow> int) \<Rightarrow> 'a list \<Rightarrow> 'a list" where
  "array_sort cmp xs = foldl (\<lambda>sorted x. insert_by cmp x sorted) [] xs"

definition sortChildren :: "(string \<Rightarrow> string \<Rightarrow> int) \<Rightarrow> FileNode list \<Rightarrow> FileNode list" where
  "sortChildren localeCompare cs = array_sort (compareChildren localeCompare) cs"

text \<open>
  The order of the specification, from its words: \<open>child_le lc a b\<close> says that \<open>a\<close> may stand
  in front of \<open>b\<close>. (a) A readme stands in front of everything; (b) among the rest a file
  stands in front of a directory; (c) within a kind a name without a leading dot stands in
  front of one with a leading dot; (d) the collation of the names decides what is left.
\<close>

definition is_readme :: "FileNode \<Rightarrow> bool" where
  "is_readme n = (toLowerCase (name n) = ''readme.md'')"

definition is_hidden :: "FileNode \<Rightarrow> bool" where
  "is_hidden n = startsWith (name n) ''.''"

definition child_le :: "(string \<Rightarrow> string \<Rightarrow> int) \<Rightarrow> FileNode \<Rightarrow> FileNode \<Rightarrow> bool" where
  "child_le lc a b =
     (if is_readme a then True
      else if is_readme b then False
      else if isDirectory a \<noteq> isDirectory b then isDirectory b
      else if is_hidden a \<noteq> is_hidden b then is_hidden b
      else lc (name a) (name b) \<le> 0)"

text \<open>A readme in front of every other entry: whatever stands at a readme's left is that readme's position itself.\<close>

fun readme_first :: "FileNode list \<Rightarrow> bool" where
  "readme_first [] = True"
| "readme_first (c # cs) = list_all (\<lambda>d. \<not> is_readme d) cs"

text \<open>
  A collation is a total preorder on strings: the sign of the result turns with the
  arguments, and "not above" is transitive.
\<close>

definition consistent_collation :: "(string \<Rightarrow> string \<Rightarrow> int) \<Rightarrow> bool" where
  "consistent_collation lc =
     ((\<forall>a b. (lc a b < 0) = (lc b a > 0)) \<and>
      (\<forall>a b c. lc a b \<le> 0 \<and> lc b c \<le> 0 \<longrightarrow> lc a c \<le> 0))"

text \<open>Comparison of the code units, a collation to run examples with.\<close>

definition codeunit_compare :: "string \<Rightarrow> string \<Rightarrow> int" where
  "codeunit_compare a b = (if a < b then - 1 else if a = b then 0 else 1)"

section \<open>query\_ingestion.ts: rendering the content\<close>

text \<open>\<^verbatim>\<open>filePath.replace(/\\/g, '/')\<close>\<close>

definition normalizePathStr :: "string \<Rightarrow> string" where
  "normalizePathStr filePath = map (\<lambda>c. if c = backslash then CHR ''/'' else c) filePath"

text \<open>An optional string in a condition: \<^verbatim>\<open>undefined\<close> and the empty string are falsy.\<close>

definition truthy :: "string option \<Rightarrow> bool" where
  "truthy v = (case v of None \<Rightarrow> False | Some s \<Rightarrow> s \<noteq> [])"

lemma child_smaller: "children node = Some cs \<Longrightarrow> c \<in> set cs \<Longrightarrow> size c < size node"
  by (cases node)
    (auto simp: less_Suc_eq_le
       dest!: size_list_estimation' [where f = size and y = "size c", OF _ order_refl])

text \<open>
  \<^verbatim>\<open>extractFilesContent\<close> pushes onto the array it is given and hands the same array to the
  calls for the children; the model passes the array along. (The query argument is not used.)
\<close>

function extractFilesContent :: "FileNode \<Rightarrow> FileNode list \<Rightarrow> FileNode list" where
  "extractFilesContent node files =
     (let files1 = (if \<not> isDirectory node \<and> truthy (content node) then files @ [node] else files)
      in case children node of
           None \<Rightarrow> files1
         | Some cs \<Rightarrow> fold extractFilesContent cs files1)"
  by pat_completeness auto
termination
  by (relation "measure (\<lambda>(node, files). size node)") (auto simp: child_smaller)

declare extractFilesContent.simps [simp del]

text \<open>\<^verbatim>\<open>parts.join(sep)\<close>\<close>

fun join :: "string \<Rightarrow> string list \<Rightarrow> string" where
  "join sep [] = []"
| "join sep [x] = x"
| "join sep (x # y # ys) = x @ sep @ join sep (y # ys)"

definition newline :: string where
  "newline = [LF]"

text \<open>A content that is \<^verbatim>\<open>undefined\<close> would be printed as that word by the template.\<close>

definition file_block :: "FileNode \<Rightarrow> string" where
  "file_block file =
     (let header = replicate 80 (CHR ''='')
      in header @ newline @ normalizePathStr (path file) @ newline @ header @ newline @
         (case content file of None \<Rightarrow> ''undefined'' | Some c \<Rightarrow> c) @ newline)"

definition createFileContentString :: "FileNode list \<Rightarrow> string" where
  "createFileContentString files = join newline (map file_block files)"

definition render_content :: "FileNode \<Rightarrow> string" where
  "render_content rootNode = createFileContentString (extractFilesContent rootNode [])"

text \<open>
  The content string of the specification, from its words. The nodes in depth-first
  pre-order; a line is its text and a line end; a block is the delimiter line, the path line,
  the delimiter line and the content; between two blocks there is an empty line.
\<close>

function preorder :: "FileNode \<Rightarrow> FileNode list" where
  "preorder node =
     node # (case children node of None \<Rightarrow> [] | Some cs \<Rightarrow> concat (map preorder cs))"
  by pat_completeness auto
termination
  by (relation "measure size") (auto simp: child_smaller)

declare preorder.simps [simp del]

definition line :: "string \<Rightarrow> string" where
  "line s = s @ [LF]"

definition delimiter :: string where
  "delimiter = replicate 80 (CHR ''='')"

definition slashes :: "string \<Rightarrow> string" where
  "slashes p = map (\<lambda>c. if c = backslash then CHR ''/'' else c) p"

definition spec_block :: "FileNode \<Rightarrow> string" where
  "spec_block n = line delimiter @ line (slashes (path n)) @ line delimiter @ line (the (content n))"

fun separated :: "string list \<Rightarrow> string" where
  "separated [] = []"
| "separated [b] = b"
| "separated (b # c # bs) = b @ line [] @ separated (c # bs)"

text \<open>The blocks, one for each node that \<open>carries\<close> picks.\<close>

definition spec_content :: "(FileNode \<Rightarrow> bool) \<Rightarrow> FileNode \<Rightarrow> string" where
  "spec_content carries rootNode =
     separated (map spec_block (filter (\<lambda>n. \<not> isDirectory n \<and> carries n) (preorder rootNode)))"

text \<open>A file node carrying extracted content, and one carrying content that is not empty.\<close>

definition has_content :: "FileNode \<Rightarrow> bool" where
  "has_content n = (content n \<noteq> None)"

definition has_text :: "FileNode \<Rightarrow> bool" where
  "has_text n = (content n \<noteq> None \<and> content n \<noteq> Some [])"

section \<open>query\_ingestion.ts: the walker\<close>

text \<open>
  What the walker gets from its host: the calls of \<^verbatim>\<open>fs/promises\<close> and \<^verbatim>\<open>path\<close> it makes,
  the notebook extractor and the collation. A call that rejects returns \<open>Inl\<close> with the
  message; for the notebook extractor \<open>Inl\<close> holds the thrown error as a template prints
  it, its name, a colon and its message. The file system does not change during a run.
\<close>

type_synonym byte = "8 word"

record Stats =
  st_size :: nat
  st_isDirectory :: bool

record Dirent =
  d_name :: string
  d_isSymbolicLink :: bool
  d_isDirectory :: bool

record host =
  fs_stat :: "string \<Rightarrow> string + Stats"
  fs_readdir :: "string \<Rightarrow> string + Dirent list"
  fs_realpath :: "string \<Rightarrow> string + string"
  fs_bytes :: "string \<Rightarrow> string + byte list"
  fs_readFile :: "string \<Rightarrow> string + string"
  processNotebook :: "string \<Rightarrow> string + string"
  path_join :: "string \<Rightarrow> string \<Rightarrow> string"
  path_basename :: "string \<Rightarrow> string"
  path_relative :: "string \<Rightarrow> string \<Rightarrow> string"
  localeCompare :: "string \<Rightarrow> string \<Rightarrow> int"

text \<open>
  What a run changes besides the tree: the two counters of \<^verbatim>\<open>FileStats\<close>, the set of
  symlink targets seen, and the lines written with \<^verbatim>\<open>console.error\<close>.
\<close>

datatype log_line = ErrorProcessing string error | ErrorReadingDirectory string error

record run =
  totalFiles :: nat
  totalSize :: nat
  seenPaths :: "string set"
  console :: "log_line list"

definition console_error :: "log_line \<Rightarrow> run \<Rightarrow> run" where
  "console_error l s = s\<lparr>console := console s @ [l]\<rparr>"

text \<open>The loop of \<^verbatim>\<open>shouldExclude\<close>; an exception inside the \<^verbatim>\<open>try\<close> answers \<^verbatim>\<open>true\<close>.\<close>

fun exclude_loop :: "string \<Rightarrow> string list \<Rightarrow> bool" where
  "exclude_loop relPath [] = False"
| "exclude_loop relPath (pattern # patterns) =
     (if pattern \<noteq> [] then
        (case fnmatch relPath pattern of
           None \<Rightarrow> True
         | Some m \<Rightarrow> if m then True else exclude_loop relPath patterns)
      else exclude_loop relPath patterns)"

definition shouldExclude :: "host \<Rightarrow> string \<Rightarrow> string \<Rightarrow> string list \<Rightarrow> bool" where
  "shouldExclude h filePath basePath ignoreSet =
     exclude_loop (path_relative h basePath filePath) ignoreSet"

text \<open>The loop of \<^verbatim>\<open>shouldInclude\<close>; an exception inside the \<^verbatim>\<open>try\<close> answers \<^verbatim>\<open>false\<close>.\<close>

fun include_loop :: "string \<Rightarrow> string list \<Rightarrow> bool" where
  "include_loop relPath [] = False"
| "include_loop relPath (pattern # patterns) =
     (case fnmatch relPath pattern of
        None \<Rightarrow> False
      | Some m \<Rightarrow> if m then True else include_loop relPath patterns)"

definition shouldInclude :: "host \<Rightarrow> string \<Rightarrow> string \<Rightarrow> string list \<Rightarrow> bool" where
  "shouldInclude h filePath basePath includeSet =
     (if length includeSet = 0 then True
      else include_loop (path_relative h basePath filePath) includeSet)"

text \<open>
  \<^verbatim>\<open>isTextFile\<close>: the read fills a buffer of 1024 bytes from position 0 of the file; the
  loop looks for a null byte among the bytes read. A failure to open or read answers
  \<^verbatim>\<open>false\<close>.
\<close>

fun no_null_byte :: "byte list \<Rightarrow> bool" where
  "no_null_byte [] = True"
| "no_null_byte (b # bs) = (if b = 0 then False else no_null_byte bs)"

definition isTextFile :: "host \<Rightarrow> string \<Rightarrow> bool" where
  "isTextFile h filePath =
     (case fs_bytes h filePath of
        Inl _ \<Rightarrow> False
      | Inr bytes \<Rightarrow>
          let buffer = take 1024 bytes; bytesRead = length buffer
          in if bytesRead = 0 then True else no_null_byte buffer)"

definition readFileContent :: "host \<Rightarrow> string \<Rightarrow> string" where
  "readFileContent h filePath =
     (case fs_readFile h filePath of
        Inr text \<Rightarrow> text
      | Inl message \<Rightarrow> ''Error reading file: '' @ message)"

definition isSafeSymlink :: "host \<Rightarrow> string \<Rightarrow> string \<Rightarrow> bool" where
  "isSafeSymlink h symlinkPath basePath =
     (case fs_realpath h symlinkPath of
        Inl _ \<Rightarrow> False
      | Inr targetPath \<Rightarrow>
          (case fs_realpath h basePath of
             Inl _ \<Rightarrow> False
           | Inr baseResolved \<Rightarrow> startsWith targetPath baseResolved))"

text \<open>
  A function that may throw returns the exception or its value, and the run as it is then.
  \<^verbatim>\<open>processFile\<close> returns the parent node with the new child.
\<close>

definition processFile :: "host \<Rightarrow> string \<Rightarrow> FileNode \<Rightarrow> run \<Rightarrow> (error + FileNode) \<times> run" where
  "processFile h filePath parentNode s =
     (case fs_stat h filePath of
        Inl message \<Rightarrow> (Inl (Error message), s)
      | Inr fileStats \<Rightarrow>
          if totalFiles s \<ge> MAX_FILES then (Inl (MaxFilesReachedError MAX_FILES), s)
          else if st_size fileStats > MAX_FILE_SIZE
          then (Inl (MaxFileSizeReachedError MAX_FILE_SIZE), s)
          else
            let s1 = s\<lparr>totalFiles := totalFiles s + 1,
                       totalSize := totalSize s + st_size fileStats\<rparr>;
                fileNode = FileNode (path_basename h filePath) filePath (st_size fileStats)
                             False None None
            in if isTextFile h filePath then
                 if endsWith filePath ''.ipynb'' then
                   (case processNotebook h filePath of
                      Inl thrown \<Rightarrow>
                        (Inl (InvalidNotebookError
                                (''Error processing notebook '' @ filePath @ '': '' @ thrown)), s1)
                    | Inr text \<Rightarrow> (Inr (push_child parentNode (set_content (Some text) fileNode)), s1))
                 else
                   (Inr (push_child parentNode
                           (set_content (Some (readFileContent h filePath)) fileNode)), s1)
               else (Inr (push_child parentNode fileNode), s1))"

text \<open>The two exceptions that the \<^verbatim>\<open>catch\<close> around an entry throws again.\<close>

fun is_limit_error :: "error \<Rightarrow> bool" where
  "is_limit_error (MaxFilesReachedError n) = True"
| "is_limit_error (MaxFileSizeReachedError n) = True"
| "is_limit_error e = False"

text \<open>
  What the caller of \<^verbatim>\<open>scanDirectory\<close> does with the result: an exception passes, \<^verbatim>\<open>null\<close>
  leaves the node as it is, a child node is pushed.
\<close>

fun attach ::
  "(FileNode \<Rightarrow> FileNode \<Rightarrow> FileNode) \<Rightarrow> FileNode \<Rightarrow> (error + FileNode option) \<times> run \<Rightarrow>
   (error + FileNode) \<times> run"
where
  "attach push node (Inl e, s) = (Inl e, s)"
| "attach push node (Inr None, s) = (Inr node, s)"
| "attach push node (Inr (Some childNode), s) = (Inr (push node childNode), s)"

text \<open>
  \<^verbatim>\<open>scanDirectory\<close>, the loop over its entries, and \<^verbatim>\<open>processSymlink\<close>. The \<^verbatim>\<open>stat\<close> of the
  directory stands in front of the outer \<^verbatim>\<open>try\<close>; the listing, the loop and the sort stand
  inside, and its \<^verbatim>\<open>catch\<close> writes a line and returns \<^verbatim>\<open>null\<close> for whatever was thrown. The
  \<^verbatim>\<open>catch\<close> around one entry throws the two limit errors again and writes a line for any
  other.
\<close>

function
  scanDirectory :: "host \<Rightarrow> ParsedQuery \<Rightarrow> string \<Rightarrow> nat \<Rightarrow> run \<Rightarrow> (error + FileNode option) \<times> run"
and
  scanEntries ::
    "host \<Rightarrow> ParsedQuery \<Rightarrow> string \<Rightarrow> Dirent list \<Rightarrow> FileNode \<Rightarrow> nat \<Rightarrow> run \<Rightarrow>
     (error + FileNode) \<times> run"
and
  processSymlink ::
    "host \<Rightarrow> ParsedQuery \<Rightarrow> string \<Rightarrow> FileNode \<Rightarrow> nat \<Rightarrow> run \<Rightarrow> (error + FileNode) \<times> run"
where
  "scanDirectory h query dirPath depth s =
     (if depth > maxDirectoryDepth query then (Inr None, s)
      else
        case fs_stat h dirPath of
          Inl message \<Rightarrow> (Inl (Error message), s)
        | Inr dirStats \<Rightarrow>
            let node = FileNode (path_basename h dirPath) dirPath (st_size dirStats) True
                         (Some []) None
            in case fs_readdir h dirPath of
                 Inl message \<Rightarrow>
                   (Inr None, console_error (ErrorReadingDirectory dirPath (Error message)) s)
               | Inr entries \<Rightarrow>
                   (case scanEntries h query dirPath entries node depth s of
                      (Inl e, s') \<Rightarrow> (Inr None, console_error (ErrorReadingDirectory dirPath e) s')
                    | (Inr node', s') \<Rightarrow>
                        (Inr (Some (case children node' of
                                      None \<Rightarrow> node'
                                    | Some cs \<Rightarrow>
                                        set_children (Some (sortChildren (localeCompare h) cs)) node')),
                         s')))"
| "scanEntries h query dirPath [] node depth s = (Inr node, s)"
| "scanEntries h query dirPath (entry # entries) node depth s =
     (let entryPath = path_join h dirPath (d_name entry)
      in if shouldExclude h entryPath (repository query) (ignorePatterns query)
         then scanEntries h query dirPath entries node depth s
         else if \<not> shouldInclude h entryPath (repository query) (includePatterns query)
         then scanEntries h query dirPath entries node depth s
         else
           case (if d_isSymbolicLink entry then processSymlink h query entryPath node depth s
                 else if d_isDirectory entry
                 then attach push_child_opt node (scanDirectory h query entryPath (depth + 1) s)
                 else processFile h entryPath node s) of
             (Inr node', s') \<Rightarrow> scanEntries h query dirPath entries node' depth s'
           | (Inl e, s') \<Rightarrow>
               if is_limit_error e then (Inl e, s')
               else scanEntries h query dirPath entries node depth
                      (console_error (ErrorProcessing entryPath e) s'))"
| "processSymlink h query symlinkPath parentNode depth s =
     (if \<not> isSafeSymlink h symlinkPath (repository query) then (Inr parentNode, s)
      else
        case fs_realpath h symlinkPath of
          Inl message \<Rightarrow> (Inl (Error message), s)
        | Inr targetPath \<Rightarrow>
            if targetPath \<in> seenPaths s then (Inl (AlreadyVisitedError targetPath), s)
            else
              let s1 = s\<lparr>seenPaths := insert targetPath (seenPaths s)\<rparr>
              in case fs_stat h targetPath of
                   Inl message \<Rightarrow> (Inl (Error message), s1)
                 | Inr targetStats \<Rightarrow>
                     if st_isDirectory targetStats
                     then attach push_child parentNode
                            (scanDirectory h query targetPath (depth + 1) s1)
                     else processFile h targetPath parentNode s1)"
  by pat_completeness auto
termination
  by (relation
       "inv_image (less_than <*lex*> less_than <*lex*> less_than)
          (\<lambda>x. case x of
             Inl (h, q, d, depth, s) \<Rightarrow> (2 * (Suc (maxDirectoryDepth q) - depth), 0, 0)
           | Inr (Inl (h, q, d, es, n, depth, s)) \<Rightarrow>
               (2 * (maxDirectoryDepth q - depth) + 1, 1, length es)
           | Inr (Inr (h, q, p, n, depth, s)) \<Rightarrow>
               (2 * (maxDirectoryDepth q - depth) + 1, 0, 0))")
    auto

declare scanDirectory.simps [simp del] scanEntries.simps(2) [simp del]
  processSymlink.simps [simp del]

text \<open>
  \<^verbatim>\<open>ingestRepository\<close>, up to the content string: the tree, the two counters and the content.
  The summary and the tree diagram are not modelled.
\<close>

record ingested =
  rootNode :: FileNode
  files_analyzed :: nat
  content_size :: nat
  content_string :: string

definition ingestRepository :: "host \<Rightarrow> string \<Rightarrow> ParsedQuery \<Rightarrow> error + ingested" where
  "ingestRepository h repo query =
     (case scanDirectory h query repo 0
             \<lparr>totalFiles = 0, totalSize = 0, seenPaths = {}, console = []\<rparr> of
        (Inl e, s) \<Rightarrow> Inl e
      | (Inr None, s) \<Rightarrow> Inl (Error ''No files found in repository'')
      | (Inr (Some root), s) \<Rightarrow>
          Inr \<lparr>rootNode = root, files_analyzed = totalFiles s, content_size = totalSize s,
               content_string = createFileContentString (extractFilesContent root [])\<rparr>)"

section \<open>Auxiliary definitions\<close>

text \<open>The three replacements together turn each pattern character into its piece of regular expression.\<close>

definition piece :: "char \<Rightarrow> string" where
  "piece c =
     (if regex_special c then [backslash, c]
      else if c = CHR ''*'' then ''.*''
      else if c = CHR ''?'' then ''.''
      else [c])"

definition piece_term :: "char \<Rightarrow> rterm" where
  "piece_term c =
     (if c = CHR ''*'' then Many Dot else if c = CHR ''?'' then One Dot else One (PatternChar c))"

text \<open>The patterns a call supplies, the exclude patterns first.\<close>

definition supplied :: "string list option \<Rightarrow> string list option \<Rightarrow> string list" where
  "supplied ignore include =
     (case ignore of None \<Rightarrow> [] | Some ps \<Rightarrow> ps) @ (case include of None \<Rightarrow> [] | Some ps \<Rightarrow> ps)"

text \<open>
  Two properties of the state of a run: no more than \<open>MAX_FILES\<close> files are counted, and
  every path in the set of seen symlink targets starts with the real path of the repository.
\<close>

definition seen_safe :: "host \<Rightarrow> ParsedQuery \<Rightarrow> run \<Rightarrow> bool" where
  "seen_safe h q s =
     (\<forall>t \<in> seenPaths s.
        case fs_realpath h (repository q) of Inl _ \<Rightarrow> False | Inr r \<Rightarrow> startsWith t r)"

definition walk_inv :: "host \<Rightarrow> ParsedQuery \<Rightarrow> run \<Rightarrow> bool" where
  "walk_inv h q s = (totalFiles s \<le> MAX_FILES \<and> seen_safe h q s)"

section \<open>Example hosts\<close>

text \<open>
  Small file systems to run the walker on. The path functions are those of a POSIX host, as
  far as the examples need them: below the base, the relative path is the rest of the path.
\<close>

definition lookup :: "(string \<times> 'a) list \<Rightarrow> string \<Rightarrow> string + 'a" where
  "lookup table p =
     (case map_of table p of
        None \<Rightarrow> Inl (''ENOENT: no such file or directory, '' @ p)
      | Some v \<Rightarrow> Inr v)"

definition posix_join :: "string \<Rightarrow> string \<Rightarrow> string" where
  "posix_join d n = d @ ''/'' @ n"

definition posix_basename :: "string \<Rightarrow> string" where
  "posix_basename p = rev (takeWhile (\<lambda>c. c \<noteq> CHR ''/'') (rev p))"

definition posix_relative :: "string \<Rightarrow> string \<Rightarrow> string" where
  "posix_relative base p = (if prefix (base @ ''/'') p then drop (length base + 1) p else p)"

definition dir_stats :: Stats where
  "dir_stats = \<lparr>st_size = 4096, st_isDirectory = True\<rparr>"

definition file_stats :: "nat \<Rightarrow> Stats" where
  "file_stats n = \<lparr>st_size = n, st_isDirectory = False\<rparr>"

definition dir_entry :: "string \<Rightarrow> Dirent" where
  "dir_entry n = \<lparr>d_name = n, d_isSymbolicLink = False, d_isDirectory = True\<rparr>"

definition file_entry :: "string \<Rightarrow> Dirent" where
  "file_entry n = \<lparr>d_name = n, d_isSymbolicLink = False, d_isDirectory = False\<rparr>"

definition link_entry :: "string \<Rightarrow> Dirent" where
  "link_entry n = \<lparr>d_name = n, d_isSymbolicLink = True, d_isDirectory = False\<rparr>"

definition example_host ::
  "(string \<times> Stats) list \<Rightarrow> (string \<times> Dirent list) list \<Rightarrow> (string \<times> string) list \<Rightarrow>
   (string \<times> byte list \<times> string) list \<Rightarrow> host"
where
  "example_host stats dirs links files =
     \<lparr>fs_stat = lookup stats,
      fs_readdir = lookup dirs,
      fs_realpath = (\<lambda>p. case map_of links p of None \<Rightarrow> Inr p | Some t \<Rightarrow> Inr t),
      fs_bytes = (\<lambda>p. map_sum id fst (lookup files p)),
      fs_readFile = (\<lambda>p. map_sum id snd (lookup files p)),
      processNotebook = (\<lambda>p. Inl ''InvalidNotebookError: Invalid JSON in notebook file''),
      path_join = posix_join,
      path_basename = posix_basename,
      path_relative = posix_relative,
      localeCompare = codeunit_compare\<rparr>"

definition example_query :: ParsedQuery where
  "example_query =
     \<lparr>repository = ''/repo'', ignorePatterns = [''*.pyc''], includePatterns = [],
      maxFiles = MAX_FILES, maxTotalSizeBytes = MAX_TOTAL_SIZE_BYTES,
      maxDirectoryDepth = MAX_DIRECTORY_DEPTH\<rparr>"

definition loop_host :: host where
  "loop_host =
     example_host
       [(''/repo'', dir_stats), (''/repo/a'', dir_stats), (''/repo/f.txt'', file_stats 5)]
       [(''/repo'', [dir_entry ''a'', file_entry ''f.txt'']),
        (''/repo/a'', [link_entry ''up'', link_entry ''out''])]
       [(''/repo/a/up'', ''/repo''), (''/repo/a/out'', ''/etc/passwd'')]
       [(''/repo/f.txt'', [104, 101, 108, 108, 111], ''hello'')]"

definition mixed_host :: host where
  "mixed_host =
     example_host
       [(''/repo'', dir_stats), (''/repo/f.txt'', file_stats 5), (''/repo/b.bin'', file_stats 3),
        (''/repo/bad.ipynb'', file_stats 1), (''/repo/big.bin'', file_stats 10485761)]
       [(''/repo'', [file_entry ''f.txt'', file_entry ''b.bin'', file_entry ''bad.ipynb'',
                     file_entry ''big.bin''])]
       []
       [(''/repo/f.txt'', [104, 101, 108, 108, 111], ''hello''),
        (''/repo/b.bin'', [1, 0, 2], [CHR 0x01, CHR 0x00, CHR 0x02]),
        (''/repo/bad.ipynb'', [123], ''{'')]"

definition limits_host :: host where
  "limits_host =
     example_host
       [(''/repo'', dir_stats), (''/repo/sub'', dir_stats), (''/repo/ok.txt'', file_stats 2),
        (''/repo/sub/big.bin'', file_stats 10485761), (''/repo/sub/small.txt'', file_stats 3)]
       [(''/repo'', [dir_entry ''sub'', file_entry ''ok.txt'']),
        (''/repo/sub'', [file_entry ''big.bin'', file_entry ''small.txt''])]
       []
       [(''/repo/ok.txt'', [111, 107], ''ok''),
        (''/repo/sub/small.txt'', [97, 98, 99], ''abc'')]"

definition start :: run where
  "start = \<lparr>totalFiles = 0, totalSize = 0, seenPaths = {}, console = []\<rparr>"

text \<open>
  A repository whose only directory entry is a directory of 10001 empty files, named f0 to
  f10000 by the decimal numerals.
\<close>

function decimal :: "nat \<Rightarrow> string" where
  "decimal n =
     (if n < 10 then [char_of (48 + n)] else decimal (n div 10) @ [char_of (48 + n mod 10)])"
  by pat_completeness auto
termination
  by (relation "measure id") auto

declare decimal.simps [simp del]

definition crowded_host :: host where
  "crowded_host =
     \<lparr>fs_stat = (\<lambda>p. if p = ''/repo'' \<or> p = ''/repo/many'' then Inr dir_stats else Inr (file_stats 0)),
      fs_readdir = (\<lambda>p.
        if p = ''/repo'' then Inr [dir_entry ''many'']
        else if p = ''/repo/many'' then Inr (map (\<lambda>i. file_entry (''f'' @ decimal i)) [0..<10001])
        else Inl (''ENOTDIR: not a directory, '' @ p)),
      fs_realpath = Inr,
      fs_bytes = (\<lambda>p. Inr []),
      fs_readFile = (\<lambda>p. Inr []),
      processNotebook = (\<lambda>p. Inr []),
      path_join = posix_join,
      path_basename = posix_basename,
      path_relative = posix_relative,
      localeCompare = codeunit_compare\<rparr>"

definition crowded_query :: ParsedQuery where
  "crowded_query =
     \<lparr>repository = ''/repo'', ignorePatterns = [], includePatterns = [],
      maxFiles = MAX_FILES, maxTotalSizeBytes = MAX_TOTAL_SIZE_BYTES,
      maxDirectoryDepth = MAX_DIRECTORY_DEPTH\<rparr>"

definition repo_node :: FileNode where
  "repo_node = FileNode ''repo'' ''/repo'' 4096 True (Some []) None"

text \<open>The children of a directory, as collected.\<close>

definition example_children :: "FileNode list" where
  "example_children =
     [FileNode ''src'' ''/repo/src'' 4096 True (Some []) None,
      FileNode ''b.txt'' ''/repo/b.txt'' 5 False None (Some ''hello''),
      FileNode ''.git'' ''/repo/.git'' 4096 True (Some []) None,
      FileNode ''.env'' ''/repo/.env'' 3 False None (Some ''A=1''),
      FileNode ''ReadMe.MD'' ''/repo/ReadMe.MD'' 2 False None (Some ''hi''),
      FileNode ''a.txt'' ''/repo/a.txt'' 1 False None (Some ''a'')]"

section \<open>Facts about fnmatch\<close>

lemma replacements_pieces:
  "replace_question (replace_star (escape_special p)) = concat (map piece p)"
  by (induction p)
    (auto simp: replace_question_def replace_star_def escape_special_def piece_def
       regex_special_def backslash_def)

lemma parse_piece:
  assumes "case rest of [] \<Rightarrow> True | r # _ \<Rightarrow> r \<noteq> CHR ''*''"
  shows "parse_regex (piece c @ rest) = map_option ((#) (piece_term c)) (parse_regex rest)"
  using assms
  by (cases rest)
    (auto simp: piece_def piece_term_def regex_special_def syntax_char_def backslash_def)

lemma parse_pieces:
  "parse_regex (concat (map piece p) @ ''$'') = Some (map piece_term p @ [AssertEnd])"
proof (induction p)
  case Nil
  show ?case by simp
next
  case (Cons c p)
  have "case concat (map piece p) @ ''$'' of [] \<Rightarrow> True | r # _ \<Rightarrow> r \<noteq> CHR ''*''"
    by (cases p) (auto split: list.splits simp: piece_def backslash_def)
  from parse_piece [OF this, of c] Cons show ?case by simp
qed

text \<open>The constructor never throws on what \<open>fnmatch\<close> hands it.\<close>

lemma fnmatch_regex:
  "fnmatch cand p = Some (regex_test (AssertStart # map piece_term p @ [AssertEnd]) cand)"
  by (simp add: fnmatch_def replacements_pieces parse_pieces)

lemma search_past_start: "regex_search (AssertStart # ts) False s = False"
  by (induction s) auto

lemma test_anchored: "regex_test (AssertStart # ts) s = rmatch ts True s"
  by (cases s) (auto simp: regex_test_def search_past_start)

lemma rmatch_glob_line: "rmatch (map piece_term p @ [AssertEnd]) b s = glob_line p s"
proof (induction p s arbitrary: b rule: glob_line.induct)
  case (1 s)
  then show ?case by (cases s) auto
next
  case (2 p ps)
  then show ?case by (auto simp: piece_term_def)
next
  case (3 p ps c s)
  then show ?case by (auto simp: piece_term_def)
qed

text \<open>
  What \<open>fnmatch\<close> computes: the anchored, case-sensitive wildcard match in which neither
  wildcard takes a line terminator.
\<close>

lemma fnmatch_glob_line: "fnmatch cand p = Some (glob_line p cand)"
  by (simp add: fnmatch_regex test_anchored rmatch_glob_line)

lemma glob_line_spec:
  "\<forall>c \<in> set s. \<not> is_line_terminator c \<Longrightarrow> glob_line p s = glob_spec p s"
  by (induction p s rule: glob_spec.induct) auto

text \<open>On a candidate without line terminators \<open>fnmatch\<close> is the matcher of the specification.\<close>

lemma fnmatch_glob_spec:
  "\<forall>c \<in> set cand. \<not> is_line_terminator c \<Longrightarrow> fnmatch cand p = Some (glob_spec p cand)"
  by (simp add: fnmatch_glob_line glob_line_spec)

text \<open>
  Claim C4. The matcher is to return true exactly when the whole candidate matches the
  pattern, with \<^verbatim>\<open>*\<close> standing for any run of characters. On the candidate of the three
  characters a, line feed, b and the pattern \<^verbatim>\<open>*\<close> the matcher of the specification
  answers true and \<open>fnmatch\<close> answers false: the dot of the regular expression does not
  take the line feed.
\<close>

theorem fnmatch_line_feed:
  "fnmatch [CHR ''a'', LF, CHR ''b''] ''*'' = Some False \<and>
   glob_spec ''*'' [CHR ''a'', LF, CHR ''b'']"
  by (simp add: fnmatch_glob_line is_line_terminator_def)

section \<open>Facts about the query builder\<close>

lemma add_patterns_invalid:
  "\<exists>p \<in> set ps. \<not> validPattern_test p \<Longrightarrow>
   \<exists>p. add_patterns ps final = Inl (InvalidPatternError p)"
  by (induction ps arbitrary: final) (auto simp: validatePattern_def)

lemma add_patterns_cases:
  "(\<exists>p. add_patterns ps final = Inl (InvalidPatternError p)) \<or> (\<exists>r. add_patterns ps final = Inr r)"
  by (induction ps arbitrary: final) (auto simp: validatePattern_def)

lemma parseQuery_invalid:
  assumes repo: "repo \<noteq> []"
    and p: "p \<in> set (supplied ignore include)"
    and bad: "\<not> validPattern_test p"
  shows "\<exists>p'. parseQuery D repo ignore include = Inl (InvalidPatternError p')"
proof (cases "\<exists>ps. ignore = Some ps \<and> p \<in> set ps")
  case True
  then obtain ps where ig: "ignore = Some ps" "p \<in> set ps" by blast
  with bad have "\<exists>p \<in> set ps. \<not> validPattern_test p" by blast
  then obtain q where "add_patterns ps (new_Set D) = Inl (InvalidPatternError q)"
    using add_patterns_invalid by blast
  with ig repo show ?thesis by (simp add: parseQuery_def)
next
  case False
  with p obtain ps where inc: "include = Some ps" "p \<in> set ps"
    by (auto simp: supplied_def split: option.splits)
  with bad have "\<exists>p \<in> set ps. \<not> validPattern_test p" by blast
  then obtain q where q: "add_patterns ps [] = Inl (InvalidPatternError q)"
    using add_patterns_invalid by blast
  show ?thesis
  proof (cases ignore)
    case None
    with q inc repo show ?thesis by (auto simp: parseQuery_def)
  next
    case (Some igs)
    with add_patterns_cases [of igs "new_Set D"] q inc repo show ?thesis
      by (auto simp: parseQuery_def)
  qed
qed

lemma foreign_char_invalid: "c \<in> set p \<Longrightarrow> \<not> pattern_char c \<Longrightarrow> \<not> validPattern_test p"
  by (auto simp: validPattern_test_def list_all_iff)

text \<open>
  Claim C6, as stated: every call with a pattern that holds a character outside the class
  fails with \<^verbatim>\<open>InvalidPattern\<close>. The check of the repository path comes first: with an empty
  path and the pattern \<^verbatim>\<open>a b\<close> the call fails with the plain error of the empty path.
\<close>

theorem parseQuery_empty_path_first:
  "parseQuery [''*.pyc''] [] (Some [''a b'']) None = Inl (Error ''Repository path cannot be empty'')"
  by (simp add: parseQuery_def)

text \<open>
  Claim C6, amended: every call with a repository path that is not empty and with a
  pattern, in either list, that holds a character outside the class fails with
  \<^verbatim>\<open>InvalidPattern\<close>; the result is the exception and no configuration.
\<close>

theorem parseQuery_foreign_char:
  assumes "repo \<noteq> []"
    and "p \<in> set (supplied ignore include)"
    and "c \<in> set p"
    and "\<not> pattern_char c"
  shows "\<exists>p'. parseQuery D repo ignore include = Inl (InvalidPatternError p')"
  using assms(1,2) foreign_char_invalid [OF assms(3,4)] by (rule parseQuery_invalid)

theorem parseQuery_foreign_char_witness:
  "\<exists>p'. parseQuery [''*.pyc''] ''repo'' (Some [''*.log'']) (Some [''src/*'', ''a b''])
          = Inl (InvalidPatternError p')"
  by (rule parseQuery_foreign_char [where p = "''a b''" and c = "CHR '' ''"])
    (simp_all add: supplied_def pattern_char_def)

text \<open>
  Claim C10, as stated: every call that supplies the empty string as a pattern fails with
  \<^verbatim>\<open>InvalidPattern\<close>. With an empty repository path the call fails with the plain error of
  the empty path instead.
\<close>

theorem parseQuery_empty_path_empty_pattern:
  "parseQuery [''*.pyc''] [] None (Some [[]]) = Inl (Error ''Repository path cannot be empty'')"
  by (simp add: parseQuery_def)

text \<open>
  Claim C10, amended: the validation rejects the empty string, which holds no character
  outside the class, and every call with a repository path that is not empty and with the
  empty string as a pattern, in either list, fails with \<^verbatim>\<open>InvalidPattern\<close>.
\<close>

theorem parseQuery_empty_pattern:
  assumes "repo \<noteq> []"
    and "[] \<in> set (supplied ignore include)"
  shows "validatePattern [] = Inl (InvalidPatternError []) \<and> list_all pattern_char [] \<and>
         (\<exists>p'. parseQuery D repo ignore include = Inl (InvalidPatternError p'))"
  using parseQuery_invalid [OF assms, of D]
  by (simp add: validatePattern_def validPattern_test_def)

theorem parseQuery_empty_pattern_witness:
  "validatePattern [] = Inl (InvalidPatternError []) \<and> list_all pattern_char [] \<and>
   (\<exists>p'. parseQuery [''*.pyc''] ''repo'' (Some [[]]) None = Inl (InvalidPatternError p'))"
  by (rule parseQuery_empty_pattern) (simp_all add: supplied_def)

section \<open>Facts about the order of children\<close>

lemma collation_sign: "consistent_collation lc \<Longrightarrow> (lc a b < 0) = (0 < lc b a)"
  unfolding consistent_collation_def by (elim conjE allE)

lemma collation_trans:
  assumes "consistent_collation lc" "lc a b \<le> 0" "lc b c \<le> 0"
  shows "lc a c \<le> 0"
proof -
  from assms(1) have "\<forall>a b c. lc a b \<le> 0 \<and> lc b c \<le> 0 \<longrightarrow> lc a c \<le> 0"
    unfolding consistent_collation_def by (rule conjunct2)
  then have "lc a b \<le> 0 \<and> lc b c \<le> 0 \<longrightarrow> lc a c \<le> 0"
    by (elim allE)
  with assms(2,3) show ?thesis by simp
qed

lemma collation_total:
  assumes "consistent_collation lc"
  shows "lc a b \<le> 0 \<or> lc b a \<le> 0"
  using collation_sign [OF assms, of b a] by linarith

lemma collation_flip:
  assumes "consistent_collation lc"
  shows "(lc a b < 0) = (\<not> lc b a \<le> 0)"
  using collation_sign [OF assms, of a b] by linarith

lemma codeunit_compare_consistent: "consistent_collation codeunit_compare"
  unfolding consistent_collation_def codeunit_compare_def by auto

lemma child_le_total:
  assumes "consistent_collation lc"
  shows "child_le lc a b \<or> child_le lc b a"
  using collation_total [OF assms, of "name a" "name b"]
  unfolding child_le_def by (simp split: if_splits)

lemma child_le_trans:
  assumes "consistent_collation lc" "child_le lc a b" "child_le lc b c"
  shows "child_le lc a c"
  using assms(2,3) collation_trans [OF assms(1), of "name a" "name b" "name c"]
  unfolding child_le_def by (simp split: if_splits)

text \<open>Unless both nodes are readmes, the comparator is below zero exactly where the order is strict.\<close>

lemma compareChildren_child_le:
  assumes "consistent_collation lc" "\<not> (is_readme x \<and> is_readme y)"
  shows "(compareChildren lc x y < 0) = (\<not> child_le lc y x)"
proof (cases "is_readme x")
  case True
  with assms(2) show ?thesis by (simp add: child_le_def compareChildren_def is_readme_def)
next
  case nx: False
  show ?thesis
  proof (cases "is_readme y")
    case True
    with nx show ?thesis by (simp add: child_le_def compareChildren_def is_readme_def)
  next
    case False
    with nx collation_flip [OF assms(1), of "name x" "name y"] show ?thesis
      by (simp add: child_le_def compareChildren_def is_readme_def is_hidden_def Let_def)
  qed
qed

text \<open>Two readmes compare below each other: the comparator is not consistent on them.\<close>

lemma compareChildren_two_readmes:
  "is_readme x \<Longrightarrow> is_readme y \<Longrightarrow> compareChildren lc x y < 0 \<and> compareChildren lc y x < 0"
  by (simp add: compareChildren_def is_readme_def)

lemma insert_by_mset: "mset (insert_by cmp x ys) = add_mset x (mset ys)"
  by (induction ys) auto

lemma insert_by_set: "set (insert_by cmp x ys) = insert x (set ys)"
  by (induction ys) auto

lemma insert_by_sorted:
  assumes total: "\<And>a b. le a b \<or> le b a"
    and trans: "\<And>a b c. le a b \<Longrightarrow> le b c \<Longrightarrow> le a c"
    and "\<forall>y \<in> set ys. (cmp x y < 0) = (\<not> le y x)"
    and "sorted_wrt le ys"
  shows "sorted_wrt le (insert_by cmp x ys)"
  using assms(3,4)
proof (induction ys)
  case Nil
  show ?case by simp
next
  case (Cons y ys)
  show ?case
  proof (cases "cmp x y < 0")
    case True
    with Cons.prems have "\<not> le y x" by simp
    with total have xy: "le x y" by blast
    with Cons.prems trans have "\<forall>z \<in> set ys. le x z" by auto
    with xy Cons.prems True show ?thesis by simp
  next
    case False
    with Cons.prems have "le y x" by simp
    with Cons False show ?thesis by (auto simp: insert_by_set)
  qed
qed

lemma array_sort_snoc: "array_sort cmp (xs @ [x]) = insert_by cmp x (array_sort cmp xs)"
  by (simp add: array_sort_def)

lemma array_sort_mset: "mset (array_sort cmp xs) = mset xs"
proof (induction xs rule: rev_induct)
  case Nil
  show ?case by (simp add: array_sort_def)
next
  case (snoc x xs)
  then show ?case by (simp add: array_sort_snoc insert_by_mset)
qed

lemma array_sort_set: "set (array_sort cmp xs) = set xs"
  using array_sort_mset [of cmp xs] by (metis set_mset_mset)

lemma one_readme_pairs:
  assumes "length (filter is_readme (cs @ [x])) \<le> 1" "y \<in> set cs"
  shows "\<not> (is_readme x \<and> is_readme y)"
proof -
  from assms(2) have "is_readme y \<Longrightarrow> filter is_readme cs \<noteq> []"
    by (auto simp: filter_empty_conv)
  with assms(1) show ?thesis by (cases "filter is_readme cs") auto
qed

lemma sortChildren_sorted:
  assumes lc: "consistent_collation lc" and one: "length (filter is_readme cs) \<le> 1"
  shows "sorted_wrt (child_le lc) (sortChildren lc cs)"
  using one
proof (induction cs rule: rev_induct)
  case Nil
  show ?case by (simp add: sortChildren_def array_sort_def)
next
  case (snoc x cs)
  then have sorted: "sorted_wrt (child_le lc) (array_sort (compareChildren lc) cs)"
    by (simp add: sortChildren_def)
  have "\<forall>y \<in> set cs. \<not> (is_readme x \<and> is_readme y)"
    using one_readme_pairs [OF snoc.prems] by blast
  then have cmp: "\<forall>y \<in> set (array_sort (compareChildren lc) cs).
                   (compareChildren lc x y < 0) = (\<not> child_le lc y x)"
    using compareChildren_child_le [OF lc] by (simp add: array_sort_set)
  have "sorted_wrt (child_le lc) (insert_by (compareChildren lc) x (array_sort (compareChildren lc) cs))"
  proof (rule insert_by_sorted)
    show "child_le lc a b \<or> child_le lc b a" for a b by (rule child_le_total [OF lc])
    show "child_le lc a b \<Longrightarrow> child_le lc b c \<Longrightarrow> child_le lc a c" for a b c
      by (rule child_le_trans [OF lc])
  qed (use cmp sorted in auto)
  then show ?case by (simp add: sortChildren_def array_sort_snoc)
qed

lemma sorted_readme_first:
  assumes "sorted_wrt (child_le lc) ys" and "length (filter is_readme ys) \<le> 1"
  shows "readme_first ys"
proof (cases ys)
  case Nil
  then show ?thesis by simp
next
  case (Cons c cs)
  have "\<not> is_readme d" if d: "d \<in> set cs" for d
  proof
    assume r: "is_readme d"
    with d have ne: "filter is_readme cs \<noteq> []" by (auto simp: filter_empty_conv)
    with assms(2) Cons have "\<not> is_readme c" by (cases "filter is_readme cs") auto
    moreover from assms(1) Cons d have "child_le lc c d" by simp
    ultimately show False using r by (simp add: child_le_def)
  qed
  with Cons show ?thesis by (simp add: list_all_iff)
qed

text \<open>Whatever the order of a list with two readmes, one of them has the other in front.\<close>

lemma two_readmes_not_first: "2 \<le> length (filter is_readme ys) \<Longrightarrow> \<not> readme_first ys"
proof (cases ys)
  case Nil
  assume "2 \<le> length (filter is_readme ys)"
  with Nil show ?thesis by simp
next
  case (Cons c cs)
  assume "2 \<le> length (filter is_readme ys)"
  with Cons have "filter is_readme cs \<noteq> []" by (auto split: if_splits)
  then obtain d where "d \<in> set cs" "is_readme d" by (auto simp: filter_empty_conv)
  with Cons show ?thesis by (auto simp: list_all_iff)
qed

text \<open>
  Claim C5, as stated: in any sorted children list a readme of any case stands in front of
  every other entry. A directory with the two files README.md and readme.md is sorted into a
  list whose second entry is a readme with another entry in front of it.
\<close>

theorem sortChildren_two_readmes:
  "\<not> readme_first
       (sortChildren codeunit_compare
          [FileNode ''README.md'' ''/repo/README.md'' 2 False None (Some ''hi''),
           FileNode ''readme.md'' ''/repo/readme.md'' 2 False None (Some ''ho'')])"
  by (simp add: sortChildren_def array_sort_def compareChildren_def toLowerCase_def
      lower_char_def is_readme_def char_of_def bit_Suc_0_iff)

text \<open>
  Claim C5, amended: for every collected children list with at most one child named
  readme.md (compared without case), and a collation that is a total preorder, the sorted
  list holds the same children and is in the order: the readme first; among the rest
  directories after files; within a kind names with a leading dot after the others; the
  collation of the names for what is left. So the readme stands in front of every other
  entry, whatever its kind.
\<close>

theorem sortChildren_order:
  assumes "consistent_collation lc" and "length (filter is_readme cs) \<le> 1"
  shows "mset (sortChildren lc cs) = mset cs \<and>
         sorted_wrt (child_le lc) (sortChildren lc cs) \<and>
         readme_first (sortChildren lc cs)"
proof -
  have m: "mset (sortChildren lc cs) = mset cs"
    by (simp add: sortChildren_def array_sort_mset)
  then have "mset (filter is_readme (sortChildren lc cs)) = mset (filter is_readme cs)"
    by simp
  then have "length (filter is_readme (sortChildren lc cs)) = length (filter is_readme cs)"
    by (metis size_mset)
  with assms(2) sorted_readme_first [OF sortChildren_sorted [OF assms]] m
    sortChildren_sorted [OF assms]
  show ?thesis by simp
qed

theorem sortChildren_order_witness:
  "consistent_collation codeunit_compare \<and>
   length (filter is_readme example_children) \<le> 1 \<and>
   mset (sortChildren codeunit_compare example_children) = mset example_children \<and>
   sorted_wrt (child_le codeunit_compare) (sortChildren codeunit_compare example_children) \<and>
   readme_first (sortChildren codeunit_compare example_children) \<and>
   map name (sortChildren codeunit_compare example_children) =
     [''ReadMe.MD'', ''a.txt'', ''b.txt'', ''.env'', ''src'', ''.git'']"
proof -
  have one: "length (filter is_readme example_children) \<le> 1"
    by (simp add: example_children_def is_readme_def toLowerCase_def lower_char_def
        char_of_def bit_Suc_0_iff)
  have names: "map name (sortChildren codeunit_compare example_children) =
      [''ReadMe.MD'', ''a.txt'', ''b.txt'', ''.env'', ''src'', ''.git'']"
    by (simp add: example_children_def sortChildren_def array_sort_def compareChildren_def
        toLowerCase_def lower_char_def char_of_def bit_Suc_0_iff startsWith_def
        codeunit_compare_def)
  from sortChildren_order [OF codeunit_compare_consistent one] one names
    codeunit_compare_consistent
  show ?thesis by simp
qed

section \<open>Facts about the content string\<close>

lemma truthy_has_text:
  "(\<not> isDirectory n \<and> truthy (content n)) = (\<not> isDirectory n \<and> has_text n)"
  by (cases "content n") (auto simp: truthy_def has_text_def)

text \<open>The array filled along the recursion is the pre-order list, filtered.\<close>

lemma extractFilesContent_preorder:
  "extractFilesContent node files =
     files @ filter (\<lambda>n. \<not> isDirectory n \<and> has_text n) (preorder node)"
proof (induction node files rule: extractFilesContent.induct)
  case (1 node files)
  show ?case
  proof (cases "children node")
    case None
    then show ?thesis
      by (subst extractFilesContent.simps, subst preorder.simps) (simp add: truthy_has_text)
  next
    case (Some cs)
    have fold: "fold extractFilesContent cs' acc =
                  acc @ filter (\<lambda>n. \<not> isDirectory n \<and> has_text n) (concat (map preorder cs'))"
      if "set cs' \<subseteq> set cs" for cs' acc
      using that
    proof (induction cs' arbitrary: acc)
      case Nil
      show ?case by simp
    next
      case (Cons c cs')
      then have "c \<in> set cs" by simp
      from "1.IH" [OF refl Some this] Cons show ?case by simp
    qed
    from Some fold [OF subset_refl] show ?thesis
      by (subst extractFilesContent.simps, subst preorder.simps) (simp add: truthy_has_text)
  qed
qed

lemma file_block_spec_block: "has_text n \<Longrightarrow> file_block n = spec_block n"
  by (auto simp: file_block_def spec_block_def line_def delimiter_def slashes_def
      normalizePathStr_def newline_def has_text_def Let_def)

lemma join_separated: "join newline bs = separated bs"
  by (induction bs rule: separated.induct) (simp_all add: newline_def line_def)

text \<open>
  Claim C9, as stated: one block for each file node carrying extracted content. An empty
  text file carries the empty string as its content; the specification's content string
  has a block for it, the rendered one has none, since the empty string is falsy.
\<close>

theorem render_content_empty_file:
  "render_content (FileNode ''empty.txt'' ''/repo/empty.txt'' 0 False None (Some [])) = [] \<and>
   spec_content has_content (FileNode ''empty.txt'' ''/repo/empty.txt'' 0 False None (Some []))
     = line delimiter @ line ''/repo/empty.txt'' @ line delimiter @ line []"
  by (simp add: render_content_def createFileContentString_def extractFilesContent.simps
      truthy_def spec_content_def preorder.simps has_content_def spec_block_def slashes_def
      backslash_def)

text \<open>
  Claim C9, amended: the rendered content string consists of one block for each file node
  carrying extracted content that is not empty, in depth-first pre-order with directory
  nodes skipped; a block is the delimiter line of 80 equals signs, the path with every
  backslash replaced by a slash, the delimiter line again, and the content; consecutive
  blocks are separated by an empty line.
\<close>

theorem render_content_blocks: "render_content root = spec_content has_text root"
proof -
  have "map file_block (filter (\<lambda>n. \<not> isDirectory n \<and> has_text n) (preorder root)) =
        map spec_block (filter (\<lambda>n. \<not> isDirectory n \<and> has_text n) (preorder root))"
    by (rule map_cong) (auto simp: file_block_spec_block)
  then show ?thesis
    by (simp add: render_content_def createFileContentString_def spec_content_def
        extractFilesContent_preorder join_separated del: map_eq_conv)
qed

theorem render_content_blocks_witness:
  "render_content
     (FileNode ''repo'' ''/repo'' 4096 True
        (Some [FileNode ''a.txt'' [CHR ''d'', backslash, CHR ''a''] 2 False None (Some ''hi''),
               FileNode ''e.txt'' ''/repo/e.txt'' 0 False None (Some []),
               FileNode ''d'' ''/repo/d'' 4096 True
                 (Some [FileNode ''b.bin'' ''/repo/d/b.bin'' 1 False None None,
                        FileNode ''c.txt'' ''/repo/d/c.txt'' 1 False None (Some ''x'')]) None])
        None)
   = line delimiter @ line ''d/a'' @ line delimiter @ line ''hi'' @ line [] @
     line delimiter @ line ''/repo/d/c.txt'' @ line delimiter @ line ''x''"
  by (simp add: render_content_blocks spec_content_def preorder.simps has_text_def
      spec_block_def slashes_def backslash_def)

section \<open>Facts about the walker\<close>

lemma no_null_byte_set: "no_null_byte bs = (0 \<notin> set bs)"
  by (induction bs) auto

lemma isTextFile_bytes:
  "isTextFile h p = (case fs_bytes h p of Inl _ \<Rightarrow> False | Inr bytes \<Rightarrow> 0 \<notin> set (take 1024 bytes))"
  by (auto simp: isTextFile_def Let_def no_null_byte_set split: sum.splits)

lemma processFile_oversize:
  "fs_stat h p = Inr st \<Longrightarrow> totalFiles s < MAX_FILES \<Longrightarrow> MAX_FILE_SIZE < st_size st \<Longrightarrow>
   processFile h p parent s = (Inl (MaxFileSizeReachedError MAX_FILE_SIZE), s)"
  by (simp add: processFile_def)

lemma isSafeSymlink_startsWith:
  "fs_realpath h p = Inr t \<Longrightarrow> fs_realpath h b = Inr r \<Longrightarrow> isSafeSymlink h p b = startsWith t r"
  by (simp add: isSafeSymlink_def)

lemma walk_inv_start: "walk_inv h q start"
  by (simp add: walk_inv_def seen_safe_def start_def)

lemma walk_inv_console: "walk_inv h q (console_error l s) = walk_inv h q s"
  by (simp add: walk_inv_def seen_safe_def console_error_def)

lemma walk_inv_processFile: "walk_inv h q s \<Longrightarrow> walk_inv h q (snd (processFile h p n s))"
  by (auto simp: processFile_def walk_inv_def seen_safe_def Let_def split: sum.splits)

lemma snd_attach: "snd (attach push n r) = snd r"
  by (cases "(push, n, r)" rule: attach.cases) auto

lemma walk_inv_seen:
  assumes "walk_inv h q s" "isSafeSymlink h p (repository q)" "fs_realpath h p = Inr t"
  shows "walk_inv h q (s\<lparr>seenPaths := insert t (seenPaths s)\<rparr>)"
  using assms
  by (auto simp: walk_inv_def seen_safe_def isSafeSymlink_def split: sum.splits)

text \<open>An exception leaves \<open>scanDirectory\<close> only when the \<^verbatim>\<open>stat\<close> of the directory fails.\<close>

lemma scanDirectory_raises_stat:
  "fst (scanDirectory h q d depth s) = Inl e \<Longrightarrow> \<exists>m. fs_stat h d = Inl m \<and> e = Error m"
  by (subst (asm) scanDirectory.simps) (auto split: if_splits sum.splits prod.splits simp: Let_def)

text \<open>So neither limit error ever leaves \<open>scanDirectory\<close>, and none leaves a run.\<close>

lemma scanDirectory_no_limit_error:
  "fst (scanDirectory h q d depth s) = Inl e \<Longrightarrow> \<not> is_limit_error e"
  using scanDirectory_raises_stat by fastforce

lemma ingestRepository_no_limit_error:
  assumes "ingestRepository h repo q = Inl e"
  shows "\<not> is_limit_error e"
proof -
  obtain r s where r: "scanDirectory h q repo 0 start = (r, s)" by (cases "scanDirectory h q repo 0 start")
  show ?thesis
  proof (cases r)
    case (Inl e')
    with r assms have "e = e'" by (simp add: ingestRepository_def start_def)
    moreover from r Inl have "fst (scanDirectory h q repo 0 start) = Inl e'" by simp
    ultimately show ?thesis using scanDirectory_no_limit_error by blast
  next
    case (Inr n)
    with r assms show ?thesis by (cases n) (auto simp: ingestRepository_def start_def)
  qed
qed

text \<open>Both properties hold at the start of a run and are kept by every step of the walker.\<close>

lemma walk_inv_preserved:
  "walk_inv h q s \<Longrightarrow> walk_inv h q (snd (scanDirectory h q d depth s))"
  "walk_inv h q s \<Longrightarrow> walk_inv h q (snd (scanEntries h q d es node depth s))"
  "walk_inv h q s \<Longrightarrow> walk_inv h q (snd (processSymlink h q p node depth s))"
proof (induction h q d depth s and h q d es node depth s and h q p node depth s
    rule: scanDirectory_scanEntries_processSymlink.induct)
  case (1 h q d depth s)
  show ?case
  proof (cases "maxDirectoryDepth q < depth")
    case True
    with "1.prems" show ?thesis by (simp add: scanDirectory.simps)
  next
    case deep: False
    show ?thesis
    proof (cases "fs_stat h d")
      case (Inl m)
      with deep "1.prems" show ?thesis by (simp add: scanDirectory.simps)
    next
      case st: (Inr dirStats)
      show ?thesis
      proof (cases "fs_readdir h d")
        case (Inl m)
        with deep st "1.prems" show ?thesis
          by (simp add: scanDirectory.simps walk_inv_console)
      next
        case (Inr entries)
        from "1.IH" [OF deep st refl Inr "1.prems"] deep st Inr show ?thesis
          by (auto simp: scanDirectory.simps walk_inv_console split: prod.splits sum.splits)
      qed
    qed
  qed
next
  case (2 h q d node depth s)
  then show ?case by simp
next
  case (3 h q d e es node depth s)
  let ?x = "path_join h d (d_name e)"
  show ?case
  proof (cases "shouldExclude h ?x (repository q) (ignorePatterns q)")
    case True
    with "3.IH"(1) [OF refl True "3.prems"] show ?thesis
      by (simp add: scanEntries.simps(2) Let_def)
  next
    case ne: False
    show ?thesis
    proof (cases "shouldInclude h ?x (repository q) (includePatterns q)")
      case False
      with "3.IH"(2) [OF refl ne False "3.prems"] ne show ?thesis
        by (simp add: scanEntries.simps(2) Let_def)
    next
      case inc: True
      then have nninc: "\<not> \<not> shouldInclude h ?x (repository q) (includePatterns q)" by simp
      define r where "r =
        (if d_isSymbolicLink e then processSymlink h q ?x node depth s
         else if d_isDirectory e
              then attach push_child_opt node (scanDirectory h q ?x (depth + 1) s)
              else processFile h ?x node s)"
      have inv_r: "walk_inv h q (snd r)"
      proof (cases "d_isSymbolicLink e")
        case True
        with "3.IH"(3) [OF refl ne nninc True "3.prems"] show ?thesis by (simp add: r_def)
      next
        case nl: False
        show ?thesis
        proof (cases "d_isDirectory e")
          case True
          with "3.IH"(4) [OF refl ne nninc nl True "3.prems"] nl show ?thesis
            by (simp add: r_def snd_attach)
        next
          case False
          with nl walk_inv_processFile [OF "3.prems"] show ?thesis by (simp add: r_def)
        qed
      qed
      obtain xa y where r: "(xa, y) = r" by (cases r) auto
      with inv_r have inv_y: "walk_inv h q y" by (metis snd_conv)
      have unfold: "scanEntries h q d (e # es) node depth s =
        (case r of
           (Inr node', s') \<Rightarrow> scanEntries h q d es node' depth s'
         | (Inl a, s') \<Rightarrow>
             if is_limit_error a then (Inl a, s')
             else scanEntries h q d es node depth (console_error (ErrorProcessing ?x a) s'))"
        using ne inc by (simp add: scanEntries.simps(2) Let_def r_def)
      show ?thesis
      proof (cases xa)
        case (Inl a)
        show ?thesis
        proof (cases "is_limit_error a")
          case True
          with Inl r inv_y unfold show ?thesis by (simp flip: r)
        next
          case False
          from "3.IH"(5) [OF refl ne nninc r [unfolded r_def] Inl False] inv_y walk_inv_console
          have "walk_inv h q (snd (scanEntries h q d es node depth
                  (console_error (ErrorProcessing ?x a) y)))" by simp
          with Inl False unfold show ?thesis by (simp flip: r)
        qed
      next
        case (Inr b)
        from "3.IH"(6) [OF refl ne nninc r [unfolded r_def] Inr inv_y]
        show ?thesis using Inr unfold by (simp flip: r)
      qed
    qed
  qed
next
  case (4 h q p node depth s)
  show ?case
  proof (cases "isSafeSymlink h p (repository q)")
    case False
    with "4.prems" show ?thesis by (simp add: processSymlink.simps)
  next
    case safe: True
    then have nnsafe: "\<not> \<not> isSafeSymlink h p (repository q)" by simp
    show ?thesis
    proof (cases "fs_realpath h p")
      case (Inl m)
      with safe "4.prems" show ?thesis by (simp add: processSymlink.simps)
    next
      case rp: (Inr t)
      show ?thesis
      proof (cases "t \<in> seenPaths s")
        case True
        with safe rp "4.prems" show ?thesis by (simp add: processSymlink.simps)
      next
        case new: False
        let ?s1 = "s\<lparr>seenPaths := insert t (seenPaths s)\<rparr>"
        have inv1: "walk_inv h q ?s1" using "4.prems" safe rp by (rule walk_inv_seen)
        show ?thesis
        proof (cases "fs_stat h t")
          case (Inl m)
          with safe rp new inv1 show ?thesis by (simp add: processSymlink.simps)
        next
          case st: (Inr targetStats)
          show ?thesis
          proof (cases "st_isDirectory targetStats")
            case True
            from "4.IH" [OF nnsafe rp new refl st True inv1] safe rp new st True
            show ?thesis by (simp add: processSymlink.simps snd_attach)
          next
            case False
            with safe rp new st walk_inv_processFile [OF inv1] show ?thesis
              by (simp add: processSymlink.simps)
          qed
        qed
      qed
    qed
  qed
qed

text \<open>The number of files counted by a run never exceeds \<open>MAX_FILES\<close>.\<close>

lemma files_counted_bounded: "totalFiles (snd (scanDirectory h q repo 0 start)) \<le> MAX_FILES"
  using walk_inv_preserved(1) [OF walk_inv_start] by (simp add: walk_inv_def)

lemma ingestRepository_files_bounded:
  "ingestRepository h repo q = Inr r \<Longrightarrow> files_analyzed r \<le> MAX_FILES"
  using files_counted_bounded [of h q repo]
  by (auto simp: ingestRepository_def start_def split: prod.splits sum.splits option.splits)

section \<open>Runs of the examples\<close>

lemmas example_defs = example_host_def lookup_def posix_join_def posix_basename_def
  posix_relative_def dir_stats_def file_stats_def dir_entry_def file_entry_def link_entry_def
  example_query_def start_def repo_node_def MAX_FILES_def MAX_FILE_SIZE_def
  MAX_DIRECTORY_DEPTH_def

lemmas walker_defs = scanDirectory.simps scanEntries.simps(2) processSymlink.simps
  processFile_def shouldExclude_def shouldInclude_def isSafeSymlink_def isTextFile_def
  readFileContent_def console_error_def push_child_def push_child_opt_def set_children_def
  set_content_def startsWith_def endsWith_def Let_def fnmatch_glob_line suffix_to_prefix

lemmas sort_defs = sortChildren_def array_sort_def compareChildren_def toLowerCase_def
  lower_char_def codeunit_compare_def

text \<open>
  The run on the repository with a symlink back to its root: the root is walked a second
  time through the link, and inside that second walk the link is met again and refused.
\<close>

lemma symlink_cycle_run:
  "scanDirectory loop_host example_query ''/repo'' 0 start =
     (Inr (Some
        (FileNode ''repo'' ''/repo'' 4096 True
           (Some [FileNode ''f.txt'' ''/repo/f.txt'' 5 False None (Some ''hello''),
                  FileNode ''a'' ''/repo/a'' 4096 True
                    (Some [FileNode ''repo'' ''/repo'' 4096 True
                             (Some [FileNode ''f.txt'' ''/repo/f.txt'' 5 False None (Some ''hello''),
                                    FileNode ''a'' ''/repo/a'' 4096 True (Some []) None])
                             None])
                    None])
           None)),
      \<lparr>totalFiles = 2, totalSize = 10, seenPaths = {''/repo''},
        console = [ErrorProcessing ''/repo/a/up'' (AlreadyVisitedError ''/repo'')]\<rparr>)"
  by (simp add: loop_host_def example_defs walker_defs sort_defs)

text \<open>
  The run on the repository with an oversized file in a subdirectory: the subdirectory is
  dropped with a line on the console, the walk goes on, and the run returns a tree.
\<close>

lemma oversize_run:
  "scanDirectory limits_host example_query ''/repo'' 0 start =
     (Inr (Some
        (FileNode ''repo'' ''/repo'' 4096 True
           (Some [FileNode ''ok.txt'' ''/repo/ok.txt'' 2 False None (Some ''ok'')]) None)),
      \<lparr>totalFiles = 1, totalSize = 2, seenPaths = {},
        console = [ErrorReadingDirectory ''/repo/sub'' (MaxFileSizeReachedError 10485760)]\<rparr>)"
  by (simp add: limits_host_def example_defs walker_defs sort_defs)

section \<open>Symlinks\<close>

text \<open>
  Claim C7. A symlink entry whose real target does not start with the real path of the
  repository is skipped without a trace: \<open>processSymlink\<close> returns without an exception
  and leaves the parent node (no node is created) and the run (the file count, the byte
  total, the set of seen targets, the console) as they are, and the loop over the entries
  goes on exactly as if the entry were not there.
\<close>

theorem unsafe_symlink_skipped:
  assumes "d_isSymbolicLink e"
    and "fs_realpath h (path_join h d (d_name e)) = Inr t"
    and "fs_realpath h (repository q) = Inr r"
    and "\<not> startsWith t r"
  shows "processSymlink h q (path_join h d (d_name e)) node depth s = (Inr node, s) \<and>
         scanEntries h q d (e # es) node depth s = scanEntries h q d es node depth s"
proof -
  have "\<not> isSafeSymlink h (path_join h d (d_name e)) (repository q)"
    using assms(2-4) by (simp add: isSafeSymlink_startsWith)
  then have "processSymlink h q (path_join h d (d_name e)) node depth s = (Inr node, s)"
    by (simp add: processSymlink.simps)
  with assms(1) show ?thesis
    by (simp add: scanEntries.simps(2) Let_def)
qed

theorem unsafe_symlink_skipped_witness:
  "processSymlink loop_host example_query ''/repo/a/out''
     (FileNode ''a'' ''/repo/a'' 4096 True (Some []) None) 1 start =
     (Inr (FileNode ''a'' ''/repo/a'' 4096 True (Some []) None), start) \<and>
   scanEntries loop_host example_query ''/repo/a'' [link_entry ''out'']
     (FileNode ''a'' ''/repo/a'' 4096 True (Some []) None) 1 start =
     (Inr (FileNode ''a'' ''/repo/a'' 4096 True (Some []) None), start)"
  using unsafe_symlink_skipped [where e = "link_entry ''out''" and h = loop_host
      and d = "''/repo/a''" and q = example_query and t = "''/etc/passwd''" and r = "''/repo''"
      and node = "FileNode ''a'' ''/repo/a'' 4096 True (Some []) None" and depth = 1
      and s = start and es = "[]"]
  by (simp add: loop_host_def example_host_def posix_join_def link_entry_def example_query_def
      startsWith_def)




section \<open>Files\<close>

text \<open>
  Claim C2, as stated: processing a regular file above the size limit fails with
  \<^verbatim>\<open>MaxFileSizeReached\<close>. The file count is checked first: once 10000 files are counted,
  a file of 10485761 bytes fails with \<^verbatim>\<open>MaxFilesReached\<close>.
\<close>

theorem processFile_count_before_size:
  "fs_stat mixed_host ''/repo/big.bin'' = Inr \<lparr>st_size = 10485761, st_isDirectory = False\<rparr> \<and>
   MAX_FILE_SIZE < 10485761 \<and>
   processFile mixed_host ''/repo/big.bin'' repo_node
     \<lparr>totalFiles = 10000, totalSize = 10000, seenPaths = {}, console = []\<rparr> =
     (Inl (MaxFilesReachedError 10000),
      \<lparr>totalFiles = 10000, totalSize = 10000, seenPaths = {}, console = []\<rparr>)"
  by (simp add: mixed_host_def example_defs processFile_def)

text \<open>
  Claim C2, amended: processing a regular file whose size exceeds the size limit, while
  the file count is below the file limit, fails with \<^verbatim>\<open>MaxFileSizeReached\<close>; the run is
  as it was, so the size of the file is not added to the byte total. The handler around the
  entry does not write a line and go on, as it does for other errors: the exception leaves
  the loop over the entries of the directory, and no entry after it is processed by that
  loop.
\<close>

theorem oversize_file_raised:
  assumes "\<not> d_isSymbolicLink e" and "\<not> d_isDirectory e"
    and "\<not> shouldExclude h (path_join h d (d_name e)) (repository q) (ignorePatterns q)"
    and "shouldInclude h (path_join h d (d_name e)) (repository q) (includePatterns q)"
    and "fs_stat h (path_join h d (d_name e)) = Inr st"
    and "MAX_FILE_SIZE < st_size st"
    and "totalFiles s < MAX_FILES"
  shows "processFile h (path_join h d (d_name e)) node s =
           (Inl (MaxFileSizeReachedError MAX_FILE_SIZE), s) \<and>
         scanEntries h q d (e # es) node depth s =
           (Inl (MaxFileSizeReachedError MAX_FILE_SIZE), s)"
proof -
  have "processFile h (path_join h d (d_name e)) node s =
          (Inl (MaxFileSizeReachedError MAX_FILE_SIZE), s)"
    using assms(5-7) by (simp add: processFile_oversize)
  with assms(1-4) show ?thesis
    by (simp add: scanEntries.simps(2) Let_def)
qed

theorem oversize_file_raised_witness:
  "processFile mixed_host ''/repo/big.bin'' repo_node start =
     (Inl (MaxFileSizeReachedError 10485760), start) \<and>
   scanEntries mixed_host example_query ''/repo'' [file_entry ''big.bin'', file_entry ''f.txt'']
     repo_node 0 start =
     (Inl (MaxFileSizeReachedError 10485760), start)"
  using oversize_file_raised [where e = "file_entry ''big.bin''" and h = mixed_host
      and d = "''/repo''" and q = example_query and st = "file_stats 10485761"
      and node = repo_node and depth = 0 and s = start and es = "[file_entry ''f.txt'']"]
  by (simp add: mixed_host_def example_defs shouldExclude_def shouldInclude_def
      fnmatch_glob_line)

text \<open>
  Claim C8, as stated: for every file that passes the count and size checks, content is
  attached to its node exactly when the leading bytes hold no null byte. A notebook file of
  the one byte \<^verbatim>\<open>{\<close> passes both checks and holds no null byte; the extractor rejects
  it, \<open>processFile\<close> throws \<^verbatim>\<open>InvalidNotebook\<close> after counting the file, and no node is
  made for it.
\<close>

theorem processFile_rejected_notebook:
  "fs_bytes mixed_host ''/repo/bad.ipynb'' = Inr [123] \<and>
   processFile mixed_host ''/repo/bad.ipynb'' repo_node start =
     (Inl (InvalidNotebookError
        ''Error processing notebook /repo/bad.ipynb: InvalidNotebookError: Invalid JSON in notebook file''),
      \<lparr>totalFiles = 1, totalSize = 1, seenPaths = {}, console = []\<rparr>)"
  by (simp add: mixed_host_def example_defs processFile_def isTextFile_def endsWith_def
      suffix_to_prefix Let_def)

text \<open>
  Claim C8, amended: for every file that passes the count and size checks and is not a
  notebook file that the extractor rejects, \<open>processFile\<close> counts the file and its bytes
  and appends a node for it to the children of the parent; the node carries content exactly
  when the leading bytes, up to the first 1024, can be read and hold no null byte, where no
  bytes at all count as text. A file with a null byte among them gets no content and is
  counted and listed all the same.
\<close>

theorem processFile_content:
  assumes "fs_stat h p = Inr st"
    and "totalFiles s < MAX_FILES"
    and "st_size st \<le> MAX_FILE_SIZE"
    and "\<not> (endsWith p ''.ipynb'' \<and> isl (processNotebook h p))"
  shows "\<exists>c. processFile h p parent s =
           (Inr (push_child parent (FileNode (path_basename h p) p (st_size st) False None c)),
            s\<lparr>totalFiles := totalFiles s + 1, totalSize := totalSize s + st_size st\<rparr>) \<and>
           (c \<noteq> None) =
             (case fs_bytes h p of Inl _ \<Rightarrow> False | Inr bytes \<Rightarrow> 0 \<notin> set (take 1024 bytes))"
  using assms isTextFile_bytes [of h p]
  by (cases "processNotebook h p") (auto simp: processFile_def Let_def set_content_def)

theorem processFile_content_witness:
  "(\<exists>c. processFile mixed_host ''/repo/f.txt'' repo_node start =
         (Inr (push_child repo_node (FileNode ''f.txt'' ''/repo/f.txt'' 5 False None c)),
          \<lparr>totalFiles = 1, totalSize = 5, seenPaths = {}, console = []\<rparr>) \<and>
         c \<noteq> None) \<and>
   (\<exists>c. processFile mixed_host ''/repo/b.bin'' repo_node start =
         (Inr (push_child repo_node (FileNode ''b.bin'' ''/repo/b.bin'' 3 False None c)),
          \<lparr>totalFiles = 1, totalSize = 3, seenPaths = {}, console = []\<rparr>) \<and>
         c = None)"
  using processFile_content [where h = mixed_host and p = "''/repo/f.txt''"
      and st = "file_stats 5" and s = start and parent = repo_node]
    processFile_content [where h = mixed_host and p = "''/repo/b.bin''"
      and st = "file_stats 3" and s = start and parent = repo_node]
  by (simp add: mixed_host_def example_defs endsWith_def suffix_to_prefix)

section \<open>The file limit\<close>

lemma crowded_query_parsed: "parseQuery [] ''/repo'' None None = Inr crowded_query"
  by (simp add: parseQuery_def crowded_query_def new_Set_def)

lemma crowded_file:
  "processFile crowded_host (posix_join ''/repo/many'' n) node s =
     (if MAX_FILES \<le> totalFiles s then (Inl (MaxFilesReachedError MAX_FILES), s)
      else (Inr (push_child node
                  (FileNode (posix_basename (posix_join ''/repo/many'' n)) (posix_join ''/repo/many'' n)
                     0 False None (Some []))),
            s\<lparr>totalFiles := totalFiles s + 1\<rparr>))"
  by (simp add: processFile_def crowded_host_def posix_join_def file_stats_def isTextFile_def
      readFileContent_def set_content_def MAX_FILE_SIZE_def Let_def)

lemma crowded_loop:
  assumes "\<forall>e \<in> set es. \<not> d_isSymbolicLink e \<and> \<not> d_isDirectory e"
    and "totalFiles s \<le> MAX_FILES"
  shows "\<exists>r. scanEntries crowded_host crowded_query ''/repo/many'' es node depth s =
           (r, s\<lparr>totalFiles := min MAX_FILES (totalFiles s + length es)\<rparr>) \<and>
           (MAX_FILES < totalFiles s + length es \<longrightarrow> r = Inl (MaxFilesReachedError MAX_FILES))"
  using assms
proof (induction es arbitrary: node s)
  case Nil
  then show ?case by simp
next
  case (Cons e es)
  have filters: "\<not> shouldExclude crowded_host p ''/repo'' []" "shouldInclude crowded_host p ''/repo'' []" for p
    by (simp_all add: shouldExclude_def shouldInclude_def)
  have join: "path_join crowded_host = posix_join" by (simp add: crowded_host_def)
  from Cons.prems have e: "\<not> d_isSymbolicLink e" "\<not> d_isDirectory e" by simp_all
  show ?case
  proof (cases "MAX_FILES \<le> totalFiles s")
    case True
    with Cons.prems e show ?thesis
      by (simp add: scanEntries.simps(2) crowded_file filters join crowded_query_def)
  next
    case False
    let ?s1 = "s\<lparr>totalFiles := totalFiles s + 1\<rparr>"
    let ?n1 = "push_child node
                  (FileNode (posix_basename (posix_join ''/repo/many'' (d_name e))) (posix_join ''/repo/many'' (d_name e))
                     0 False None (Some []))"
    from False have "totalFiles ?s1 \<le> MAX_FILES" by simp
    with Cons.IH [of ?s1 ?n1] Cons.prems obtain r where
      r: "scanEntries crowded_host crowded_query ''/repo/many'' es ?n1 depth ?s1 =
           (r, ?s1\<lparr>totalFiles := min MAX_FILES (totalFiles ?s1 + length es)\<rparr>)"
         "MAX_FILES < totalFiles ?s1 + length es \<longrightarrow> r = Inl (MaxFilesReachedError MAX_FILES)"
      by auto
    from False e r show ?thesis
      by (simp add: scanEntries.simps(2) crowded_file filters join crowded_query_def)
  qed
qed

lemma crowded_many:
  "scanDirectory crowded_host crowded_query ''/repo/many'' 1 start =
     (Inr None,
      \<lparr>totalFiles = 10000, totalSize = 0, seenPaths = {},
        console = [ErrorReadingDirectory ''/repo/many'' (MaxFilesReachedError 10000)]\<rparr>)"
proof -
  let ?es = "map (\<lambda>i. file_entry (''f'' @ decimal i)) [0..<10001]"
  let ?node = "FileNode ''many'' ''/repo/many'' 4096 True (Some []) None"
  have "\<forall>e \<in> set ?es. \<not> d_isSymbolicLink e \<and> \<not> d_isDirectory e"
    by (simp add: file_entry_def)
  from crowded_loop [OF this, of start ?node 1]
  have "scanEntries crowded_host crowded_query ''/repo/many'' ?es ?node 1 start =
          (Inl (MaxFilesReachedError MAX_FILES), start\<lparr>totalFiles := MAX_FILES\<rparr>)"
    by (simp add: start_def MAX_FILES_def)
  moreover have "fs_readdir crowded_host ''/repo/many'' = Inr ?es"
    by (simp add: crowded_host_def)
  moreover have "fs_stat crowded_host ''/repo/many'' = Inr dir_stats"
    by (simp add: crowded_host_def)
  moreover have "path_basename crowded_host ''/repo/many'' = ''many''"
    by (simp add: crowded_host_def posix_basename_def)
  ultimately show ?thesis
    by (simp add: scanDirectory.simps crowded_query_def MAX_DIRECTORY_DEPTH_def dir_stats_def
        console_error_def start_def MAX_FILES_def)
qed

text \<open>
  Claim C1. When a regular file is processed with the file count at its maximum,
  \<open>processFile\<close> fails with \<^verbatim>\<open>MaxFilesReached\<close> and the handler around the entry throws it
  again; it is to unwind the whole traversal and abort the run. The handler around the
  listing of the directory catches it: the directory comes back as \<^verbatim>\<open>null\<close>, with a line
  on the console, and the walk goes on in the parent (\<open>scanDirectory_no_limit_error\<close>,
  \<open>ingestRepository_no_limit_error\<close>). On the repository whose directory \<^verbatim>\<open>many\<close> holds
  10001 empty files the run does not fail: it returns a tree without the directory and
  reports 10000 files. The count itself never exceeds the maximum
  (\<open>ingestRepository_files_bounded\<close>).
\<close>

theorem ingestRepository_crowded:
  "ingestRepository crowded_host ''/repo'' crowded_query =
     Inr \<lparr>rootNode = FileNode ''repo'' ''/repo'' 4096 True (Some []) None,
          files_analyzed = 10000, content_size = 0, content_string = []\<rparr>"
proof -
  have many: "scanDirectory crowded_host crowded_query (posix_join ''/repo'' ''many'') (Suc 0) 
       \<lparr>totalFiles = 0, totalSize = 0, seenPaths = {}, console = []\<rparr> = 
     (Inr None,
      \<lparr>totalFiles = 10000, totalSize = 0, seenPaths = {},
        console = [ErrorReadingDirectory ''/repo/many'' (MaxFilesReachedError 10000)]\<rparr>)"
    using crowded_many by (simp add: posix_join_def start_def)
  have "scanDirectory crowded_host crowded_query ''/repo'' 0
          \<lparr>totalFiles = 0, totalSize = 0, seenPaths = {}, console = []\<rparr> =
        (Inr (Some (FileNode ''repo'' ''/repo'' 4096 True (Some []) None)),
         \<lparr>totalFiles = 10000, totalSize = 0, seenPaths = {},
           console = [ErrorReadingDirectory ''/repo/many'' (MaxFilesReachedError 10000)]\<rparr>)"
  proof -
    have host: "fs_stat crowded_host ''/repo'' = Inr dir_stats"
      "fs_readdir crowded_host ''/repo'' = Inr [dir_entry ''many'']"
      "path_basename crowded_host = posix_basename" "path_join crowded_host = posix_join"
      "path_relative crowded_host = posix_relative"
      by (simp_all add: crowded_host_def)
    have query: "maxDirectoryDepth crowded_query = 20" "ignorePatterns crowded_query = []"
      "includePatterns crowded_query = []"
      by (simp_all add: crowded_query_def MAX_DIRECTORY_DEPTH_def)
    show ?thesis
      by (subst scanDirectory.simps)
        (simp add: host query many scanEntries.simps(2) shouldExclude_def shouldInclude_def
          dir_stats_def dir_entry_def posix_basename_def sortChildren_def array_sort_def
          Let_def set_children_def)
  qed
  then show ?thesis
    by (simp add: ingestRepository_def extractFilesContent.simps createFileContentString_def truthy_def)
qed

end
